theory Spec2Isabelle
  imports Main "HOL-Library.Sublist"
begin

section \<open>Python text\<close>

text \<open>
  A Python \<open>str\<close> is a sequence of Unicode code points. Isabelle's \<open>char\<close> has only 256
  values, so a code point is a natural number here and a string is a list of them. String
  literals of the source are written through \<open>py\<close>, which reads an ASCII literal as its
  code points.
\<close>

type_synonym pystr = "nat list"

definition py :: "string \<Rightarrow> pystr" where
  "py s = map of_char s"

definition LF :: nat where
  "LF = 10"

definition CR :: nat where
  "CR = 13"

text \<open>
  \<open>str.isspace\<close> on one code point, which is what \<open>str.strip()\<close> without an argument
  removes: the ASCII controls 0x09 to 0x0D and 0x1C to 0x1F, the space, NEL (0x85), the
  no-break space (0xA0) and the Unicode spaces and separators U+1680, U+2000 to U+200A,
  U+2028, U+2029, U+202F, U+205F and U+3000.
\<close>

definition isspace :: "nat \<Rightarrow> bool" where
  "isspace c \<longleftrightarrow>
     (9 \<le> c \<and> c \<le> 13) \<or> (28 \<le> c \<and> c \<le> 32) \<or> c = 133 \<or> c = 160 \<or> c = 5760 \<or>
     (8192 \<le> c \<and> c \<le> 8202) \<or> c = 8232 \<or> c = 8233 \<or> c = 8239 \<or> c = 8287 \<or> c = 12288"

definition strip :: "pystr \<Rightarrow> pystr" where
  "strip s = rev (dropWhile isspace (rev (dropWhile isspace s)))"

definition startswith :: "pystr \<Rightarrow> pystr \<Rightarrow> bool" where
  "startswith s p \<longleftrightarrow> prefix p s"

definition endswith :: "pystr \<Rightarrow> pystr \<Rightarrow> bool" where
  "endswith s p \<longleftrightarrow> suffix p s"

section \<open>Reading a text file line by line\<close>

text \<open>
  \<open>open(index_file, "r")\<close> opens the file in text mode with universal newlines: on
  reading, each of \<open>\n\<close>, \<open>\r\n\<close> and a lone \<open>\r\<close> ends a line and is handed to the
  program as \<open>\n\<close>. Iterating over the file yields the lines of the translated text, each
  with its final \<open>\n\<close>; the last line has none when the file does not end with a line
  terminator.
\<close>

fun translate_newlines :: "pystr \<Rightarrow> pystr" where
  "translate_newlines [] = []"
| "translate_newlines [c] = [if c = CR then LF else c]"
| "translate_newlines (c # d # cs) =
     (if c = CR \<and> d = LF then LF # translate_newlines cs
      else if c = CR then LF # translate_newlines (d # cs)
      else c # translate_newlines (d # cs))"

fun split_keepends :: "pystr \<Rightarrow> pystr list" where
  "split_keepends [] = []"
| "split_keepends (c # cs) =
     (if c = LF then [LF] # split_keepends cs
      else (case split_keepends cs of
              [] \<Rightarrow> [[c]]
            | l # ls \<Rightarrow> (c # l) # ls))"

definition file_lines :: "pystr \<Rightarrow> pystr list" where
  "file_lines content = split_keepends (translate_newlines content)"

section \<open>The script \<open>update_index.py\<close>\<close>

text \<open>
  The script works in one directory. What it sees of the file system is the list of names
  that \<open>os.listdir(".")\<close> returns, in the order it returns them, and the index file:
  \<open>None\<close> when \<open>index.md\<close> does not exist, \<open>Some content\<close> when it does, where
  \<open>content\<close> is the decoded text of the file. Files are read and written as on POSIX
  with the locale encoding UTF-8, Python's default there: text mode writes \<open>\n\<close> as it
  is, and a string is encoded with strict error handling, so that writing a string with a
  surrogate code point (U+D800 to U+DFFF) raises \<open>UnicodeEncodeError\<close>. Such code points
  occur in file names: \<open>os.listdir\<close> returns a byte of a name that is not valid UTF-8
  as a lone surrogate. Failures of the file system itself (an unreadable directory, a file
  that cannot be opened) are outside the model, and so is an index file whose bytes cannot
  be decoded, which has no text.
\<close>

type_synonym index_state = "pystr option"

datatype py_error = UnicodeEncodeError

text \<open>
  The outcome of a piece of the script that writes: \<open>Inr s\<close> when it returns and leaves
  the state \<open>s\<close>, \<open>Inl (e, s)\<close> when it raises \<open>e\<close> and leaves the state \<open>s\<close>. The
  script catches nothing, so an exception ends the run.
\<close>

type_synonym 'a outcome = "py_error \<times> 'a + 'a"

text \<open>
  What the loop of the script works on: the variable \<open>existing_entries\<close> and the index
  file.
\<close>

record script_state =
  existing_entries :: "pystr set"
  index_md :: index_state

text \<open>
  Whether \<open>str.encode\<close> with UTF-8 and strict error handling succeeds on a string:
  every code point is a Unicode scalar value, that is, none is a surrogate.
\<close>

definition encodable :: "pystr \<Rightarrow> bool" where
  "encodable s \<longleftrightarrow> list_all (\<lambda>c. c < 55296 \<or> (57343 < c \<and> c \<le> 1114111)) s"

definition index_file :: pystr where
  "index_file = py ''index.md''"

definition base_url :: pystr where
  "base_url = py ''https://github.com/arya2004/hashnode-backup/blob/main/''"

definition read_existing_entries :: "index_state \<Rightarrow> pystr set" where
  "read_existing_entries fs =
     (case fs of
        None \<Rightarrow> {}
      | Some content \<Rightarrow>
          set (map strip (filter (\<lambda>line. startswith line (py ''- ['')) (file_lines content))))"

text \<open>
  Opening in mode \<open>"a"\<close> creates a missing file and writes at the end of an existing one.
  \<open>f.write\<close> encodes the whole string before it writes any of it: when the string cannot
  be encoded, the file has been opened (and created) but nothing is added to it.
\<close>

definition append_to_index :: "pystr \<Rightarrow> pystr \<Rightarrow> index_state \<Rightarrow> index_state outcome" where
  "append_to_index file_name link fs =
     (let opened = (case fs of None \<Rightarrow> [] | Some content \<Rightarrow> content);
          line = py ''- ['' @ file_name @ py '']('' @ link @ py '')'' @ [LF]
      in if encodable line then Inr (Some (opened @ line))
         else Inl (UnicodeEncodeError, Some opened))"

definition md_files :: "pystr list \<Rightarrow> pystr list" where
  "md_files listing = filter (\<lambda>f. endswith f (py ''.md'') \<and> f \<noteq> index_file) listing"

text \<open>
  The \<open>for\<close> loop over the candidates that are left. The loop reads the variable
  \<open>existing_entries\<close> and never assigns to it; the only thing it changes is the index
  file. A write that raises ends the loop: the candidates after it are not looked at.
\<close>

fun for_loop :: "pystr list \<Rightarrow> script_state \<Rightarrow> script_state outcome" where
  "for_loop [] s = Inr s"
| "for_loop (file_name # rest) s =
     (let file_link = base_url @ file_name;
          entry = py ''- ['' @ file_name @ py '']('' @ file_link @ py '')''
      in if entry \<notin> existing_entries s then
           (case append_to_index file_name file_link (index_md s) of
              Inl (raised, fs') \<Rightarrow> Inl (raised, s\<lparr>index_md := fs'\<rparr>)
            | Inr fs' \<Rightarrow> for_loop rest (s\<lparr>index_md := fs'\<rparr>))
         else for_loop rest s)"

text \<open>
  The script as a whole, from the directory listing and the index file it finds: the
  candidates are taken from the listing, the existing entries are read, and the loop runs.
\<close>

definition update_index :: "pystr list \<Rightarrow> index_state \<Rightarrow> script_state outcome" where
  "update_index listing fs =
     (let candidates = md_files listing;
          existing = read_existing_entries fs
      in for_loop candidates \<lparr>existing_entries = existing, index_md = fs\<rparr>)"

section \<open>Vocabulary of the specification\<close>

text \<open>
  The text of the index file, where a missing file has none, and the canonical entry of a
  file name, \<open>- [<name>](<base_url><name>)\<close>.
\<close>

definition contents :: "index_state \<Rightarrow> pystr" where
  "contents fs = (case fs of None \<Rightarrow> [] | Some content \<Rightarrow> content)"

definition entry_line :: "pystr \<Rightarrow> pystr" where
  "entry_line name = py ''- ['' @ name @ py '']('' @ base_url @ name @ py '')''"

text \<open>
  The state that a piece of the script leaves behind, whether it returned or raised, and
  the index file that a run leaves behind.
\<close>

definition state_after :: "'a outcome \<Rightarrow> 'a" where
  "state_after r = (case r of Inl (e, s) \<Rightarrow> s | Inr s \<Rightarrow> s)"

definition index_after :: "script_state outcome \<Rightarrow> index_state" where
  "index_after r = index_md (state_after r)"

text \<open>
  A string has a line break when it contains a line feed or a carriage return, the two
  characters that end a line on reading. A text is terminated when it is empty or its last
  character ends a line, so that text written after it starts a new line.
\<close>

definition has_line_break :: "pystr \<Rightarrow> bool" where
  "has_line_break s \<longleftrightarrow> LF \<in> set s \<or> CR \<in> set s"

definition terminated :: "pystr \<Rightarrow> bool" where
  "terminated s \<longleftrightarrow> s = [] \<or> last s = LF \<or> last s = CR"

text \<open>
  The lines of the index file as a reader of the file sees them, each without its final
  line feed.
\<close>

definition chomp :: "pystr \<Rightarrow> pystr" where
  "chomp l = (if l \<noteq> [] \<and> last l = LF then butlast l else l)"

definition index_lines :: "index_state \<Rightarrow> pystr list" where
  "index_lines fs = map chomp (file_lines (contents fs))"

section \<open>The loop as a whole\<close>

lemma contents_simps: "contents (Some c) = c" "contents None = []"
  by (simp_all add: contents_def)

lemma state_after_simps [simp]:
  "state_after (Inr s) = s" "state_after (Inl (e, s)) = s"
  by (simp_all add: state_after_def)

lemma index_after_simps [simp]:
  "index_after (Inr s) = index_md s" "index_after (Inl (e, s)) = index_md s"
  by (simp_all add: index_after_def)

lemma encodable_append [simp]: "encodable (a @ b) \<longleftrightarrow> encodable a \<and> encodable b"
  by (simp add: encodable_def)

lemma encodable_base_url: "encodable base_url"
  by (simp add: encodable_def base_url_def py_def)

lemma encodable_written:
  "encodable (py ''- ['' @ f @ py '']('' @ (base_url @ f) @ py '')'' @ [LF]) \<longleftrightarrow> encodable f"
proof -
  have "encodable (py ''- ['')" "encodable (py '']('')" "encodable (py '')'')" "encodable [LF]"
    by (simp_all add: encodable_def py_def LF_def)
  then show ?thesis
    using encodable_base_url by auto
qed

lemma append_to_index_eq:
  "append_to_index f (base_url @ f) fs =
     (if encodable f then Inr (Some (contents fs @ entry_line f @ [LF]))
      else Inl (UnicodeEncodeError, Some (contents fs)))"
  unfolding append_to_index_def Let_def encodable_written
  by (simp add: entry_line_def contents_def)

lemma for_loop_Cons:
  "for_loop (f # ns) s =
     (if entry_line f \<in> existing_entries s then for_loop ns s
      else if encodable f
        then for_loop ns (s\<lparr>index_md := Some (contents (index_md s) @ entry_line f @ [LF])\<rparr>)
      else Inl (UnicodeEncodeError, s\<lparr>index_md := Some (contents (index_md s))\<rparr>))"
proof -
  have "py ''- ['' @ f @ py '']('' @ (base_url @ f) @ py '')'' = entry_line f"
    by (simp add: entry_line_def)
  then show ?thesis
    by (simp add: Let_def append_to_index_eq)
qed

lemma for_loop_eq:
  "for_loop ns s =
     (if list_all encodable (filter (\<lambda>f. entry_line f \<notin> existing_entries s) ns)
      then Inr (s\<lparr>index_md :=
             (if filter (\<lambda>f. entry_line f \<notin> existing_entries s) ns = [] then index_md s
              else Some (contents (index_md s) @
                concat (map (\<lambda>f. entry_line f @ [LF])
                  (filter (\<lambda>f. entry_line f \<notin> existing_entries s) ns))))\<rparr>)
      else Inl (UnicodeEncodeError, s\<lparr>index_md := Some (contents (index_md s) @
             concat (map (\<lambda>f. entry_line f @ [LF])
               (takeWhile encodable (filter (\<lambda>f. entry_line f \<notin> existing_entries s) ns))))\<rparr>))"
proof (induction ns arbitrary: s)
  case Nil
  then show ?case by simp
next
  case (Cons f ns)
  show ?case
    unfolding for_loop_Cons Cons.IH by (simp add: contents_simps)
qed

lemma update_index_eq:
  "update_index listing fs =
     (if list_all encodable
           (filter (\<lambda>f. entry_line f \<notin> read_existing_entries fs) (md_files listing))
      then Inr \<lparr>existing_entries = read_existing_entries fs, index_md =
             (if filter (\<lambda>f. entry_line f \<notin> read_existing_entries fs) (md_files listing) = []
              then fs
              else Some (contents fs @
                concat (map (\<lambda>f. entry_line f @ [LF])
                  (filter (\<lambda>f. entry_line f \<notin> read_existing_entries fs) (md_files listing)))))\<rparr>
      else Inl (UnicodeEncodeError, \<lparr>existing_entries = read_existing_entries fs, index_md =
             Some (contents fs @
             concat (map (\<lambda>f. entry_line f @ [LF])
               (takeWhile encodable
                 (filter (\<lambda>f. entry_line f \<notin> read_existing_entries fs) (md_files listing)))))\<rparr>))"
  by (simp add: update_index_def for_loop_eq Let_def)

lemma existing_entries_update_index:
  "existing_entries (state_after (update_index listing fs)) = read_existing_entries fs"
  by (simp add: update_index_eq)

lemma takeWhile_all: "list_all P xs \<Longrightarrow> takeWhile P xs = xs"
  by (simp add: list_all_iff)

lemma contents_update_index:
  "contents (index_after (update_index listing fs)) =
     contents fs @
     concat (map (\<lambda>f. entry_line f @ [LF])
       (takeWhile encodable
         (filter (\<lambda>f. entry_line f \<notin> read_existing_entries fs) (md_files listing))))"
  by (simp add: update_index_eq takeWhile_all contents_simps)

lemma isl_update_index:
  "isl (update_index listing fs) \<longleftrightarrow>
   \<not> list_all encodable
       (filter (\<lambda>f. entry_line f \<notin> read_existing_entries fs) (md_files listing))"
  by (simp add: update_index_eq)

lemma update_index_returns:
  assumes "update_index listing fs = Inr s'"
  shows "list_all encodable
           (filter (\<lambda>f. entry_line f \<notin> read_existing_entries fs) (md_files listing))"
    and "contents (index_md s') = contents fs @
           concat (map (\<lambda>f. entry_line f @ [LF])
             (filter (\<lambda>f. entry_line f \<notin> read_existing_entries fs) (md_files listing)))"
proof -
  show enc: "list_all encodable
      (filter (\<lambda>f. entry_line f \<notin> read_existing_entries fs) (md_files listing))"
    using assms isl_update_index [of listing fs] by auto
  have "contents (index_after (update_index listing fs)) = contents (index_md s')"
    by (simp add: assms)
  then show "contents (index_md s') = contents fs @
      concat (map (\<lambda>f. entry_line f @ [LF])
        (filter (\<lambda>f. entry_line f \<notin> read_existing_entries fs) (md_files listing)))"
    by (simp add: contents_update_index takeWhile_all [OF enc])
qed

lemma update_index_none:
  assumes "\<forall>f \<in> set (md_files listing). entry_line f \<in> read_existing_entries fs"
  shows "update_index listing fs =
           Inr \<lparr>existing_entries = read_existing_entries fs, index_md = fs\<rparr>"
proof -
  from assms
  have "filter (\<lambda>f. entry_line f \<notin> read_existing_entries fs) (md_files listing) = []"
    by (simp add: filter_empty_conv)
  then show ?thesis by (simp add: update_index_eq)
qed

lemma index_after_exists:
  "fs \<noteq> None \<Longrightarrow> index_after (update_index listing fs) \<noteq> None"
  by (simp add: update_index_eq)

lemma md_files_filter_index:
  "md_files (filter (\<lambda>f. f \<noteq> index_file) listing) = md_files listing"
  by (simp add: md_files_def conj_commute cong: filter_cong)

section \<open>Lines of a text\<close>

lemma LF_neq_CR [simp]: "LF \<noteq> CR" "CR \<noteq> LF"
  by (simp_all add: LF_def CR_def)

lemma translate_newlines_Nil_iff [simp]: "translate_newlines s = [] \<longleftrightarrow> s = []"
  by (induction s rule: translate_newlines.induct) simp_all

lemma translate_newlines_append:
  "a = [] \<or> last a \<noteq> CR \<or> b = [] \<or> hd b \<noteq> LF \<Longrightarrow>
   translate_newlines (a @ b) = translate_newlines a @ translate_newlines b"
proof (induction a rule: translate_newlines.induct)
  case 1
  then show ?case by simp
next
  case (2 c)
  then show ?case by (cases b) auto
next
  case (3 c d cs)
  then show ?case by (cases cs) (auto split: if_splits)
qed

lemma last_translate_newlines:
  "s \<noteq> [] \<Longrightarrow> last s = LF \<or> last s = CR \<Longrightarrow> last (translate_newlines s) = LF"
  by (induction s rule: translate_newlines.induct) (auto split: if_splits)

lemma translate_newlines_id:
  "CR \<notin> set s \<Longrightarrow> translate_newlines s = s"
  by (induction s rule: translate_newlines.induct) auto

lemma split_keepends_Nil_iff [simp]: "split_keepends s = [] \<longleftrightarrow> s = []"
  by (cases s) (simp_all split: list.splits)

lemma split_keepends_append:
  "x = [] \<or> last x = LF \<Longrightarrow>
   split_keepends (x @ y) = split_keepends x @ split_keepends y"
proof (induction x)
  case Nil
  then show ?case by simp
next
  case (Cons c cs)
  show ?case
  proof (cases "c = LF")
    case True
    then show ?thesis using Cons by (cases "cs = []") auto
  next
    case False
    with Cons.prems have ne: "cs \<noteq> []" and l: "last cs = LF" by (auto split: if_splits)
    then have ih: "split_keepends (cs @ y) = split_keepends cs @ split_keepends y"
      using Cons.IH by simp
    from ne obtain l ls where "split_keepends cs = l # ls"
      by (cases "split_keepends cs") auto
    then show ?thesis using False ih by simp
  qed
qed

lemma split_keepends_single:
  "LF \<notin> set s \<Longrightarrow> split_keepends (s @ [LF]) = [s @ [LF]]"
  by (induction s) auto

lemma split_keepends_no_LF:
  "LF \<notin> set s \<Longrightarrow> s \<noteq> [] \<Longrightarrow> split_keepends s = [s]"
proof (induction s)
  case Nil
  then show ?case by simp
next
  case (Cons c cs)
  then show ?case by (cases "cs = []") auto
qed

lemma file_lines_Nil [simp]: "file_lines [] = []"
  by (simp add: file_lines_def)

lemma file_lines_append:
  assumes "terminated a" and "b = [] \<or> hd b \<noteq> LF"
  shows "file_lines (a @ b) = file_lines a @ file_lines b"
proof (cases "a = []")
  case True
  then show ?thesis by simp
next
  case False
  with assms(1) have l: "last a = LF \<or> last a = CR" by (simp add: terminated_def)
  have "translate_newlines (a @ b) = translate_newlines a @ translate_newlines b"
    using assms(2) by (intro translate_newlines_append) auto
  moreover have "last (translate_newlines a) = LF"
    using False l by (rule last_translate_newlines)
  ultimately show ?thesis
    by (simp add: file_lines_def split_keepends_append)
qed

lemma file_lines_single:
  "\<not> has_line_break s \<Longrightarrow> file_lines (s @ [LF]) = [s @ [LF]]"
  by (simp add: has_line_break_def file_lines_def translate_newlines_id split_keepends_single)

lemma file_lines_unterminated:
  "\<not> has_line_break s \<Longrightarrow> s \<noteq> [] \<Longrightarrow> file_lines s = [s]"
  by (simp add: has_line_break_def file_lines_def translate_newlines_id split_keepends_no_LF)

section \<open>Entry lines\<close>

lemma marker_eq: "py ''- ['' = [45, 32, 91]"
  by (simp add: py_def)

lemma entry_line_eq:
  "entry_line f = 45 # 32 # 91 # f @ [93, 40] @ base_url @ f @ [41]"
  by (simp add: entry_line_def py_def)

lemma base_url_no_line_break: "\<not> has_line_break base_url"
  by (simp add: has_line_break_def base_url_def py_def LF_def CR_def)

lemma has_line_break_entry_line [simp]:
  "has_line_break (entry_line f) \<longleftrightarrow> has_line_break f"
  using base_url_no_line_break
  by (auto simp: has_line_break_def entry_line_eq LF_def CR_def)

lemma startswith_entry_line [simp]: "startswith (entry_line f @ rest) (py ''- ['')"
  by (simp add: startswith_def marker_eq entry_line_eq)

lemma strip_between:
  assumes "\<not> isspace a" and "\<not> isspace b" and "\<forall>w \<in> set ws. isspace w"
  shows "strip (a # t @ b # ws) = a # t @ [b]"
proof -
  have "dropWhile isspace (rev ws @ b # rev t @ [a]) = b # rev t @ [a]"
    using assms(2,3) by (simp add: dropWhile_append3)
  then show ?thesis
    using assms(1) by (simp add: strip_def)
qed

lemma strip_entry_line_LF [simp]: "strip (entry_line f @ [LF]) = entry_line f"
proof -
  have "strip (45 # (32 # 91 # f @ [93, 40] @ base_url @ f) @ 41 # [LF])
        = 45 # (32 # 91 # f @ [93, 40] @ base_url @ f) @ [41]"
    by (rule strip_between) (simp_all add: isspace_def LF_def)
  then show ?thesis by (simp add: entry_line_eq)
qed

lemma strip_entry_line [simp]: "strip (entry_line f) = entry_line f"
proof -
  have "strip (45 # (32 # 91 # f @ [93, 40] @ base_url @ f) @ 41 # [])
        = 45 # (32 # 91 # f @ [93, 40] @ base_url @ f) @ [41]"
    by (rule strip_between) (simp_all add: isspace_def)
  then show ?thesis by (simp add: entry_line_eq)
qed


lemma entry_line_inject [simp]: "entry_line a = entry_line b \<longleftrightarrow> a = b"
proof
  assume eq: "entry_line a = entry_line b"
  then have "length (entry_line a) = length (entry_line b)" by simp
  then have "length a = length b" by (simp add: entry_line_eq)
  with eq show "a = b" by (simp add: entry_line_eq)
qed simp

section \<open>The existing entries after an append\<close>

lemma terminated_append:
  "terminated a \<Longrightarrow> terminated b \<Longrightarrow> terminated (a @ b)"
  by (cases "b = []") (auto simp: terminated_def)

lemma terminated_entry [simp]: "terminated (s @ [LF])"
  by (simp add: terminated_def)

lemma terminated_entries [simp]:
  "terminated (concat (map (\<lambda>f. entry_line f @ [LF]) names))"
proof (induction names)
  case Nil
  then show ?case by (simp add: terminated_def)
next
  case (Cons f names)
  have "terminated ((entry_line f @ [LF]) @ concat (map (\<lambda>f. entry_line f @ [LF]) names))"
    using Cons.IH by (intro terminated_append terminated_entry)
  then show ?case by simp
qed

lemma entries_start:
  "concat (map (\<lambda>f. entry_line f @ [LF]) names) = [] \<or>
   hd (concat (map (\<lambda>f. entry_line f @ [LF]) names)) \<noteq> LF"
  by (cases names) (simp_all add: entry_line_eq LF_def)

lemma entry_start: "hd (entry_line f @ rest) \<noteq> LF"
  by (simp add: entry_line_eq LF_def)


lemma file_lines_update_index:
  assumes "terminated (contents fs)"
  shows "file_lines (contents (index_after (update_index listing fs))) =
         file_lines (contents fs) @
         file_lines (concat (map (\<lambda>f. entry_line f @ [LF])
           (takeWhile encodable
             (filter (\<lambda>f. entry_line f \<notin> read_existing_entries fs) (md_files listing)))))"
  unfolding contents_update_index
  by (rule file_lines_append [OF assms entries_start])

lemma file_lines_entry_between:
  assumes "terminated c" and "\<not> has_line_break f"
  shows "file_lines (c @ concat (map (\<lambda>f. entry_line f @ [LF]) (xs @ f # ys))) =
         file_lines (c @ concat (map (\<lambda>f. entry_line f @ [LF]) xs)) @
         [entry_line f @ [LF]] @
         file_lines (concat (map (\<lambda>f. entry_line f @ [LF]) ys))"
proof -
  let ?w = "\<lambda>ns. concat (map (\<lambda>f. entry_line f @ [LF]) ns)"
  have t: "terminated (c @ ?w xs)"
    using assms(1) by (simp add: terminated_append)
  have "file_lines (((c @ ?w xs) @ (entry_line f @ [LF])) @ ?w ys) =
        file_lines ((c @ ?w xs) @ (entry_line f @ [LF])) @ file_lines (?w ys)"
    by (rule file_lines_append [OF _ entries_start]) (simp add: terminated_def)
  moreover have "file_lines ((c @ ?w xs) @ (entry_line f @ [LF])) =
        file_lines (c @ ?w xs) @ file_lines (entry_line f @ [LF])"
    by (rule file_lines_append [OF t]) (simp add: entry_start)
  ultimately show ?thesis
    using assms(2) by (simp add: file_lines_single)
qed

lemma read_existing_entries_contents:
  "read_existing_entries (Some (contents fs)) = read_existing_entries fs"
  by (cases fs) (simp_all add: contents_def read_existing_entries_def)

lemma mem_read_existing_entries:
  "e \<in> read_existing_entries fs \<longleftrightarrow>
   (\<exists>l \<in> set (file_lines (contents fs)). startswith l (py ''- ['') \<and> strip l = e)"
  by (cases fs) (auto simp: contents_def read_existing_entries_def)

lemma entry_recognised_after_run:
  assumes run: "update_index listing fs = Inr s'"
    and cand: "f \<in> set (md_files listing)"
    and f: "\<not> has_line_break f"
    and t: "terminated (contents fs)"
  shows "entry_line f \<in> read_existing_entries (index_md s')"
proof (cases "entry_line f \<in> read_existing_entries fs")
  case True
  then obtain l where "l \<in> set (file_lines (contents fs))"
      and "startswith l (py ''- ['')" and "strip l = entry_line f"
    by (auto simp: mem_read_existing_entries)
  moreover have "file_lines (contents (index_md s')) =
      file_lines (contents fs) @
      file_lines (concat (map (\<lambda>f. entry_line f @ [LF])
        (filter (\<lambda>f. entry_line f \<notin> read_existing_entries fs) (md_files listing))))"
    unfolding update_index_returns(2) [OF run]
    by (rule file_lines_append [OF t entries_start])
  ultimately show ?thesis
    unfolding mem_read_existing_entries by auto
next
  case False
  let ?missing = "filter (\<lambda>f. entry_line f \<notin> read_existing_entries fs) (md_files listing)"
  from False cand have "f \<in> set ?missing" by simp
  then obtain xs ys where split: "?missing = xs @ f # ys"
    by (auto dest: split_list)
  have "entry_line f @ [LF] \<in> set (file_lines (contents (index_md s')))"
    unfolding update_index_returns(2) [OF run] split file_lines_entry_between [OF t f] by simp
  then show ?thesis
    unfolding mem_read_existing_entries by (rule bexI [rotated]) simp
qed


section \<open>Line breaks in what the scan reads\<close>

lemma has_line_break_append [simp]:
  "has_line_break (a @ b) \<longleftrightarrow> has_line_break a \<or> has_line_break b"
  by (auto simp: has_line_break_def)

lemma CR_notin_translate_newlines: "CR \<notin> set (translate_newlines s)"
  by (induction s rule: translate_newlines.induct) auto

lemma split_keepends_subset:
  "l \<in> set (split_keepends s) \<Longrightarrow> set l \<subseteq> set s"
proof (induction s arbitrary: l)
  case Nil
  then show ?case by simp
next
  case (Cons c cs)
  show ?case
  proof (cases "split_keepends cs")
    case Nil
    with Cons.prems show ?thesis by (auto split: if_splits)
  next
    case (Cons k ks)
    then have "set k \<subseteq> set cs" and "\<And>l. l \<in> set ks \<Longrightarrow> set l \<subseteq> set cs"
      using Cons.IH by simp_all
    with Cons Cons.prems show ?thesis by (auto split: if_splits)
  qed
qed

lemma split_keepends_line:
  "l \<in> set (split_keepends s) \<Longrightarrow> l \<noteq> [] \<and> LF \<notin> set (butlast l)"
  by (induction s arbitrary: l) (auto split: if_splits list.splits)

lemma set_strip: "set (strip s) \<subseteq> set s"
  by (auto simp: strip_def dest!: set_dropWhileD)

lemma strip_snoc_space:
  assumes "isspace w"
  shows "strip (xs @ [w]) = strip xs"
proof (cases "\<forall>x \<in> set xs. isspace x")
  case True
  with assms show ?thesis
    by (auto simp: strip_def dropWhile_append dest: set_dropWhileD)
next
  case False
  with assms show ?thesis by (auto simp: strip_def dropWhile_append)
qed

lemma LF_notin_strip_line:
  assumes "l \<in> set (split_keepends s)"
  shows "LF \<notin> set (strip l)"
proof -
  from assms have ne: "l \<noteq> []" and b: "LF \<notin> set (butlast l)"
    by (simp_all add: split_keepends_line)
  show ?thesis
  proof (cases "last l = LF")
    case True
    have "isspace LF" by (simp add: isspace_def LF_def)
    then have "strip (butlast l @ [LF]) = strip (butlast l)" by (rule strip_snoc_space)
    with True ne have "strip l = strip (butlast l)" by (metis append_butlast_last_id)
    with b show ?thesis using set_strip by fastforce
  next
    case False
    with ne b have "LF \<notin> set l" by (metis append_butlast_last_id set_ConsD set_append Un_iff list.set(1) empty_iff)
    then show ?thesis using set_strip by fastforce
  qed
qed

lemma no_line_break_in_entries:
  assumes "e \<in> read_existing_entries fs"
  shows "\<not> has_line_break e"
proof -
  from assms obtain l where l: "l \<in> set (file_lines (contents fs))" and e: "e = strip l"
    by (auto simp: mem_read_existing_entries)
  from l have "set l \<subseteq> set (translate_newlines (contents fs))"
    unfolding file_lines_def by (rule split_keepends_subset)
  then have "CR \<notin> set l" using CR_notin_translate_newlines by blast
  then have "CR \<notin> set e" using set_strip e by blast
  moreover have "LF \<notin> set e"
    using l e unfolding file_lines_def by (simp add: LF_notin_strip_line)
  ultimately show ?thesis by (simp add: has_line_break_def)
qed

lemma LF_notin_index_lines:
  assumes "l \<in> set (index_lines fs)"
  shows "LF \<notin> set l"
proof -
  from assms obtain k where k: "k \<in> set (split_keepends (translate_newlines (contents fs)))"
      and l: "l = chomp k"
    by (auto simp: index_lines_def file_lines_def)
  from k have ne: "k \<noteq> []" and b: "LF \<notin> set (butlast k)"
    by (simp_all add: split_keepends_line)
  show ?thesis
  proof (cases "last k = LF")
    case True
    with ne b l show ?thesis by (simp add: chomp_def)
  next
    case False
    with ne b have "LF \<notin> set k" by (metis append_butlast_last_id set_ConsD set_append Un_iff list.set(1) empty_iff)
    with False l show ?thesis by (simp add: chomp_def)
  qed
qed

section \<open>Facts about the script and about concrete inputs\<close>

lemma update_index_single:
  "md_files [f] = [f] \<Longrightarrow>
   update_index [f] fs =
     (if entry_line f \<in> read_existing_entries fs
      then Inr \<lparr>existing_entries = read_existing_entries fs, index_md = fs\<rparr>
      else if encodable f
        then Inr \<lparr>existing_entries = read_existing_entries fs,
               index_md = Some (contents fs @ entry_line f @ [LF])\<rparr>
      else Inl (UnicodeEncodeError,
             \<lparr>existing_entries = read_existing_entries fs, index_md = Some (contents fs)\<rparr>))"
  by (simp add: update_index_eq)

lemma read_existing_entries_unmarked:
  assumes "\<not> has_line_break s" and "s \<noteq> []" and "hd s \<noteq> 45"
  shows "read_existing_entries (Some s) = {}"
    and "read_existing_entries (Some (s @ [LF])) = {}"
proof -
  have "\<not> startswith (s @ t) (py ''- ['')" for t
    using assms(2,3) by (cases s) (auto simp: startswith_def marker_eq)
  from this [of "[]"] this [of "[LF]"]
  show "read_existing_entries (Some s) = {}"
    and "read_existing_entries (Some (s @ [LF])) = {}"
    using assms(1,2)
    by (simp_all add: read_existing_entries_def file_lines_unterminated file_lines_single)
qed

lemma md_files_a: "md_files [py ''a.md''] = [py ''a.md'']"
  by code_simp

lemma md_files_a_index: "md_files [py ''a.md'', index_file] = [py ''a.md'']"
  by code_simp

lemma md_files_broken: "md_files [py ''a'' @ [LF] @ py ''b.md''] = [py ''a'' @ [LF] @ py ''b.md'']"
  by code_simp

lemma no_line_break_a: "\<not> has_line_break (py ''a.md'')"
  by (simp add: has_line_break_def py_def LF_def CR_def)

lemma no_line_break_posts: "\<not> has_line_break (py ''# Posts'')"
  by (simp add: has_line_break_def py_def LF_def CR_def)

lemma length_entry_line: "length (entry_line f) = 60 + 2 * length f"
  by (simp add: entry_line_eq base_url_def py_def)

lemma length_strip: "length (strip s) \<le> length s"
proof -
  have "length (dropWhile isspace (rev (dropWhile isspace s))) \<le> length (rev (dropWhile isspace s))"
    by (rule length_dropWhile_le)
  also have "\<dots> \<le> length s"
    by (simp add: length_dropWhile_le)
  finally show ?thesis by (simp add: strip_def)
qed



lemma md_files_a_a: "md_files [py ''a.md'', py ''a.md''] = [py ''a.md'', py ''a.md'']"
  by code_simp

lemma md_files_b_a: "md_files [py ''b.md'', py ''a.md''] = [py ''b.md'', py ''a.md'']"
  by code_simp

lemma md_files_post1: "md_files [py ''post1.md''] = [py ''post1.md'']"
  by code_simp

lemma no_line_break_post1: "\<not> has_line_break (py ''post1.md'')"
  by (simp add: has_line_break_def py_def LF_def CR_def)

lemma terminated_None: "terminated (contents None)"
  by (simp add: terminated_def contents_def)

lemma missing_entry_appended:
  assumes "f \<in> set (md_files listing)" and "entry_line f \<notin> read_existing_entries fs"
  obtains xs ys where
    "filter (\<lambda>f. entry_line f \<notin> read_existing_entries fs) (md_files listing) = xs @ f # ys"
proof -
  from assms have
    "f \<in> set (filter (\<lambda>f. entry_line f \<notin> read_existing_entries fs) (md_files listing))"
    by simp
  then show ?thesis
    using that by (auto dest: split_list)
qed


lemma endswith_md [simp]: "endswith (n @ py ''.md'') (py ''.md'')"
  by (auto simp: endswith_def suffix_def)

lemma md_files_Cons:
  "md_files (f # fs) =
     (if endswith f (py ''.md'') \<and> f \<noteq> index_file then f # md_files fs else md_files fs)"
  by (simp add: md_files_def)

lemma md_files_Nil [simp]: "md_files [] = []"
  by (simp add: md_files_def)

lemma encodable_a: "encodable (py ''a.md'')"
  by (simp add: encodable_def py_def)

lemma encodable_b: "encodable (py ''b.md'')"
  by (simp add: encodable_def py_def)

lemma encodable_c: "encodable (py ''c.md'')"
  by (simp add: encodable_def py_def)

lemma encodable_post1: "encodable (py ''post1.md'')"
  by (simp add: encodable_def py_def)

lemma encodable_broken: "encodable (py ''a'' @ [LF] @ py ''b.md'')"
  by (simp add: encodable_def py_def LF_def)

lemma not_encodable_surrogate: "\<not> encodable (56575 # py ''.md'')"
  by (simp add: encodable_def)

lemma endswith_surrogate: "endswith (56575 # py ''.md'') (py ''.md'')"
  using endswith_md [of "[56575]"] by simp

lemma surrogate_not_index: "56575 # py ''.md'' \<noteq> index_file"
  by (simp add: index_file_def py_def)


lemma read_existing_entries_None [simp]: "read_existing_entries None = {}"
  by (simp add: read_existing_entries_def)

lemma read_existing_entries_empty [simp]: "read_existing_entries (Some []) = {}"
  by (simp add: read_existing_entries_def)


lemma md_files_bad_b:
  "md_files [56575 # py ''.md'', py ''b.md''] = [56575 # py ''.md'', py ''b.md'']"
proof -
  have "endswith (py ''b.md'') (py ''.md'')" "py ''b.md'' \<noteq> index_file"
    by code_simp+
  then show ?thesis
    by (simp only: md_files_Cons md_files_Nil endswith_surrogate surrogate_not_index) simp
qed

lemma md_files_b_bad:
  "md_files [py ''b.md'', 56575 # py ''.md''] = [py ''b.md'', 56575 # py ''.md'']"
proof -
  have "endswith (py ''b.md'') (py ''.md'')" "py ''b.md'' \<noteq> index_file"
    by code_simp+
  then show ?thesis
    by (simp only: md_files_Cons md_files_Nil endswith_surrogate surrogate_not_index) simp
qed


lemma old_entry_differs:
  assumes "length rest < 40"
  shows "strip (py ''- [post1.md](old-wrong-url)'' @ rest) \<noteq> entry_line (py ''post1.md'')"
proof -
  have "length (strip (py ''- [post1.md](old-wrong-url)'' @ rest)) \<le>
      length (py ''- [post1.md](old-wrong-url)'' @ rest)"
    by (rule length_strip)
  moreover have "length (py ''- [post1.md](old-wrong-url)'') + 40 < length (entry_line (py ''post1.md''))"
    by (simp add: length_entry_line py_def)
  ultimately show ?thesis
    using assms by auto
qed

lemma run_after_posts:
  "update_index [py ''a.md''] (Some (py ''# Posts'')) =
     Inr \<lparr>existing_entries = {},
          index_md = Some (py ''# Posts'' @ entry_line (py ''a.md'') @ [LF])\<rparr>"
proof -
  have "py ''# Posts'' \<noteq> []" "hd (py ''# Posts'') \<noteq> 45"
    by (simp_all add: py_def)
  then show ?thesis
    by (simp add: update_index_single [OF md_files_a] encodable_a contents_simps
        read_existing_entries_unmarked(1) [OF no_line_break_posts])
qed

lemma lines_after_posts:
  "file_lines (py ''# Posts'' @ entry_line (py ''a.md'') @ [LF]) =
     [py ''# Posts'' @ entry_line (py ''a.md'') @ [LF]]"
proof -
  have "file_lines ((py ''# Posts'' @ entry_line (py ''a.md'')) @ [LF]) =
      [(py ''# Posts'' @ entry_line (py ''a.md'')) @ [LF]]"
    by (rule file_lines_single) (simp add: no_line_break_posts no_line_break_a)
  then show ?thesis by simp
qed

lemma scan_after_posts:
  "read_existing_entries (Some (py ''# Posts'' @ entry_line (py ''a.md'') @ [LF])) = {}"
proof -
  have "py ''# Posts'' \<noteq> []" "hd (py ''# Posts'') \<noteq> 45"
    by (simp_all add: py_def)
  then have "read_existing_entries (Some ((py ''# Posts'' @ entry_line (py ''a.md'')) @ [LF])) = {}"
    by (intro read_existing_entries_unmarked(2))
      (simp_all add: no_line_break_posts no_line_break_a)
  then show ?thesis by simp
qed

lemma spaced_entry:
  "file_lines (entry_line (py ''a.md'') @ py '' '' @ [LF]) =
     [entry_line (py ''a.md'') @ py '' '' @ [LF]]"
  "strip (entry_line (py ''a.md'') @ py '' '' @ [LF]) = entry_line (py ''a.md'')"
  "update_index [py ''a.md''] (Some (entry_line (py ''a.md'') @ py '' '' @ [LF])) =
     Inr \<lparr>existing_entries = {entry_line (py ''a.md'')},
          index_md = Some (entry_line (py ''a.md'') @ py '' '' @ [LF])\<rparr>"
proof -
  let ?e = "entry_line (py ''a.md'')"
  have sp: "isspace 32" "isspace LF" "py '' '' = [32]"
    by (simp_all add: isspace_def LF_def py_def)
  have "\<not> has_line_break [32]"
    by (simp add: has_line_break_def LF_def CR_def)
  then have "file_lines ((?e @ [32]) @ [LF]) = [(?e @ [32]) @ [LF]]"
    by (intro file_lines_single) (simp add: no_line_break_a)
  then show l: "file_lines (?e @ py '' '' @ [LF]) = [?e @ py '' '' @ [LF]]"
    by (simp add: sp(3))
  have "strip ((?e @ [32]) @ [LF]) = ?e"
    by (simp only: strip_snoc_space [OF sp(2)] strip_snoc_space [OF sp(1)] strip_entry_line)
  then show s: "strip (?e @ py '' '' @ [LF]) = ?e"
    by (simp add: sp(3))
  from l s have "read_existing_entries (Some (?e @ py '' '' @ [LF])) = {?e}"
    by (simp add: read_existing_entries_def)
  then show "update_index [py ''a.md''] (Some (?e @ py '' '' @ [LF])) =
      Inr \<lparr>existing_entries = {?e}, index_md = Some (?e @ py '' '' @ [LF])\<rparr>"
    by (simp add: update_index_single [OF md_files_a])
qed

lemma run_broken:
  "update_index [py ''a'' @ [LF] @ py ''b.md''] fs =
     Inr \<lparr>existing_entries = read_existing_entries fs,
          index_md = Some (contents fs @ entry_line (py ''a'' @ [LF] @ py ''b.md'') @ [LF])\<rparr>"
proof -
  have "has_line_break (entry_line (py ''a'' @ [LF] @ py ''b.md''))"
    by (simp add: has_line_break_def entry_line_eq)
  then have "entry_line (py ''a'' @ [LF] @ py ''b.md'') \<notin> read_existing_entries fs"
    using no_line_break_in_entries by blast
  then show ?thesis
    using update_index_single [OF md_files_broken, of fs] encodable_broken by simp
qed

section \<open>Frame properties\<close>

text \<open>
  Claim C8. When the directory listing has no candidate (no name ending in \<open>.md\<close> other
  than the index file's own), a run returns and leaves the index file as it was: an
  existing file keeps its content and a missing file is not created.
\<close>

theorem no_candidates_unchanged:
  "md_files listing = [] \<Longrightarrow>
   update_index listing fs =
     Inr \<lparr>existing_entries = read_existing_entries fs, index_md = fs\<rparr>"
  by (simp add: update_index_def)

theorem no_candidates_unchanged_witness:
  "md_files [py ''index.md'', py ''notes.txt''] = [] \<and>
   update_index [py ''index.md'', py ''notes.txt''] None =
     Inr \<lparr>existing_entries = {}, index_md = None\<rparr>"
proof -
  have h: "md_files [py ''index.md'', py ''notes.txt''] = []"
    by code_simp
  show ?thesis
    using h no_candidates_unchanged [OF h, of None] by simp
qed

text \<open>
  Claim C7. The index file's own name is never a candidate, although it ends with
  \<open>.md\<close>; whether the directory listing contains it makes no difference to a run.
\<close>

theorem index_file_excluded:
  "index_file \<notin> set (md_files listing) \<and>
   update_index (filter (\<lambda>f. f \<noteq> index_file) listing) fs = update_index listing fs"
  by (simp add: update_index_def md_files_filter_index) (simp add: md_files_def)

theorem index_file_excluded_witness:
  "endswith index_file (py ''.md'') \<and>
   index_file \<notin> set (md_files [py ''a.md'', index_file]) \<and>
   update_index [py ''a.md''] None = update_index [py ''a.md'', index_file] None"
proof -
  have e: "endswith index_file (py ''.md'')"
    by code_simp
  have f: "filter (\<lambda>f. f \<noteq> index_file) [py ''a.md'', index_file] = [py ''a.md'']"
    by code_simp
  show ?thesis
    using e f index_file_excluded [of "[py ''a.md'', index_file]" None] by simp
qed



section \<open>What a run writes\<close>

text \<open>
  Claim C3, as the code has it. A run only appends, whether it returns or raises: the text
  of the index file before the run is a prefix of its text after the run, and a file that
  existed before the run exists after it. When the text before the run is empty or ends
  with a line terminator, the lines of the file before the run are the first lines of the
  file after the run, unchanged and in the same order.
\<close>

theorem append_only:
  "prefix (contents fs) (contents (index_after (update_index listing fs))) \<and>
   (fs \<noteq> None \<longrightarrow> index_after (update_index listing fs) \<noteq> None) \<and>
   (terminated (contents fs) \<longrightarrow>
      prefix (file_lines (contents fs))
        (file_lines (contents (index_after (update_index listing fs)))))"
proof -
  have "prefix (contents fs) (contents (index_after (update_index listing fs)))"
    by (simp add: contents_update_index)
  moreover have "fs \<noteq> None \<longrightarrow> index_after (update_index listing fs) \<noteq> None"
    by (simp add: index_after_exists)
  moreover have "terminated (contents fs) \<longrightarrow>
      prefix (file_lines (contents fs))
        (file_lines (contents (index_after (update_index listing fs))))"
    by (simp add: file_lines_update_index)
  ultimately show ?thesis by blast
qed

theorem append_only_witness:
  "prefix (py ''# Posts'' @ [LF])
     (contents (index_after (update_index [py ''a.md''] (Some (py ''# Posts'' @ [LF]))))) \<and>
   index_after (update_index [py ''a.md''] (Some (py ''# Posts'' @ [LF]))) \<noteq> None \<and>
   terminated (py ''# Posts'' @ [LF]) \<and>
   prefix (file_lines (py ''# Posts'' @ [LF]))
     (file_lines (contents (index_after (update_index [py ''a.md'']
        (Some (py ''# Posts'' @ [LF]))))))"
  using append_only [of "Some (py ''# Posts'' @ [LF])" "[py ''a.md'']"]
  by (simp add: contents_simps)

text \<open>
  The lines are not always kept. When the index file is \<open># Posts\<close> without a final line
  terminator, the first entry is written onto that line, and \<open># Posts\<close> is no longer a
  line of the file.
\<close>

theorem lines_kept_counterexample:
  "py ''# Posts'' \<in> set (index_lines (Some (py ''# Posts''))) \<and>
   \<not> isl (update_index [py ''a.md''] (Some (py ''# Posts''))) \<and>
   index_lines (index_after (update_index [py ''a.md''] (Some (py ''# Posts'')))) =
     [py ''# Posts'' @ entry_line (py ''a.md'')] \<and>
   py ''# Posts'' \<notin>
     set (index_lines (index_after (update_index [py ''a.md''] (Some (py ''# Posts'')))))"
proof -
  have posts: "py ''# Posts'' \<noteq> []" "last (py ''# Posts'') \<noteq> LF"
    by (simp_all add: py_def LF_def)
  have before: "py ''# Posts'' \<in> set (index_lines (Some (py ''# Posts'')))"
    using posts
    by (simp add: index_lines_def contents_simps chomp_def
        file_lines_unterminated [OF no_line_break_posts])
  have after: "index_lines (Some (py ''# Posts'' @ entry_line (py ''a.md'') @ [LF])) =
      [py ''# Posts'' @ entry_line (py ''a.md'')]"
    by (simp add: index_lines_def contents_simps lines_after_posts chomp_def butlast_append)
  show ?thesis
    unfolding run_after_posts using before after by (simp add: entry_line_eq)
qed




text \<open>
  Claim C4, as the code has it. The variable \<open>existing_entries\<close> is set once before the
  loop and is the same when the run ends, whatever was appended: an appended entry is not
  treated as present afterwards. A run still writes no entry line twice, because the names
  in the listing of a directory are pairwise distinct and distinct names have distinct
  canonical entries: for every listing with pairwise distinct names, the entry lines that
  a run appends are pairwise distinct.
\<close>

theorem each_entry_written_once:
  assumes "distinct listing"
  shows "distinct (map entry_line
           (takeWhile encodable
             (filter (\<lambda>f. entry_line f \<notin> read_existing_entries fs) (md_files listing)))) \<and>
         contents (index_after (update_index listing fs)) =
           contents fs @
           concat (map (\<lambda>e. e @ [LF]) (map entry_line
             (takeWhile encodable
               (filter (\<lambda>f. entry_line f \<notin> read_existing_entries fs) (md_files listing))))) \<and>
         existing_entries (state_after (update_index listing fs)) = read_existing_entries fs"
proof -
  from assms have "distinct (md_files listing)"
    by (simp add: md_files_def)
  then have "distinct (takeWhile encodable
      (filter (\<lambda>f. entry_line f \<notin> read_existing_entries fs) (md_files listing)))"
    by simp
  then have "distinct (map entry_line (takeWhile encodable
      (filter (\<lambda>f. entry_line f \<notin> read_existing_entries fs) (md_files listing))))"
    by (simp add: distinct_map inj_on_def)
  then show ?thesis
    by (simp add: contents_update_index existing_entries_update_index comp_def)
qed

theorem each_entry_written_once_witness:
  "distinct [py ''b.md'', py ''a.md''] \<and>
   distinct (map entry_line
     (takeWhile encodable
       (filter (\<lambda>f. entry_line f \<notin> read_existing_entries None)
         (md_files [py ''b.md'', py ''a.md''])))) \<and>
   contents (index_after (update_index [py ''b.md'', py ''a.md''] None)) =
     entry_line (py ''b.md'') @ [LF] @ entry_line (py ''a.md'') @ [LF] \<and>
   existing_entries (state_after (update_index [py ''b.md'', py ''a.md''] None)) = {}"
proof -
  have d: "distinct [py ''b.md'', py ''a.md'']"
    by (simp add: py_def)
  show ?thesis
    using d each_entry_written_once [OF d, of None]
    by (simp add: md_files_b_a encodable_a encodable_b contents_simps)
qed

text \<open>
  With only \<open>a.md\<close> in the directory and no index file, the run appends the entry of
  \<open>a.md\<close> and ends with an \<open>existing_entries\<close> that does not contain it. What would
  follow for a list that names \<open>a.md\<close> twice is that the loop writes the entry line twice.
\<close>

theorem entry_not_recorded_counterexample:
  "update_index [py ''a.md''] None =
     Inr \<lparr>existing_entries = {}, index_md = Some (entry_line (py ''a.md'') @ [LF])\<rparr> \<and>
   entry_line (py ''a.md'') \<notin> existing_entries (state_after (update_index [py ''a.md''] None)) \<and>
   update_index [py ''a.md'', py ''a.md''] None =
     Inr \<lparr>existing_entries = {},
          index_md = Some (entry_line (py ''a.md'') @ [LF] @ entry_line (py ''a.md'') @ [LF])\<rparr>"
proof -
  have 1: "update_index [py ''a.md''] None =
      Inr \<lparr>existing_entries = {}, index_md = Some (entry_line (py ''a.md'') @ [LF])\<rparr>"
    by (simp add: update_index_single [OF md_files_a] encodable_a contents_simps)
  have 2: "update_index [py ''a.md'', py ''a.md''] None =
      Inr \<lparr>existing_entries = {},
           index_md = Some (entry_line (py ''a.md'') @ [LF] @ entry_line (py ''a.md'') @ [LF])\<rparr>"
    by (simp add: update_index_eq md_files_a_a encodable_a contents_simps)
  show ?thesis
    using 1 2 by simp
qed

section \<open>Completeness and idempotence\<close>

text \<open>
  Claim C1, as the code has it. When the index file is missing, empty or ends with a line
  terminator before the run and the run returns, then for every candidate whose name has
  no line break the index file has, after the run, a line that begins with \<open>- [\<close> and is
  the canonical entry once the white space around it is stripped: the line the scan of the
  next run reads as this entry.
\<close>

theorem completeness_up_to_strip:
  assumes "update_index listing fs = Inr s'"
    and "f \<in> set (md_files listing)"
    and "\<not> has_line_break f"
    and "terminated (contents fs)"
  shows "\<exists>l \<in> set (file_lines (contents (index_md s'))).
           startswith l (py ''- ['') \<and> strip l = entry_line f"
  using entry_recognised_after_run [OF assms] by (simp add: mem_read_existing_entries)

theorem completeness_up_to_strip_witness:
  "update_index [py ''a.md''] None =
     Inr \<lparr>existing_entries = {}, index_md = Some (entry_line (py ''a.md'') @ [LF])\<rparr> \<and>
   py ''a.md'' \<in> set (md_files [py ''a.md'']) \<and>
   \<not> has_line_break (py ''a.md'') \<and>
   terminated (contents None) \<and>
   (\<exists>l \<in> set (file_lines (contents (Some (entry_line (py ''a.md'') @ [LF])))).
      startswith l (py ''- ['') \<and> strip l = entry_line (py ''a.md''))"
proof -
  have r: "update_index [py ''a.md''] None =
      Inr \<lparr>existing_entries = {}, index_md = Some (entry_line (py ''a.md'') @ [LF])\<rparr>"
    by (simp add: update_index_single [OF md_files_a] encodable_a contents_simps)
  have c: "py ''a.md'' \<in> set (md_files [py ''a.md''])"
    by (simp add: md_files_a)
  show ?thesis
    using r c no_line_break_a terminated_None
      completeness_up_to_strip [OF r c no_line_break_a terminated_None]
    by simp
qed

text \<open>
  A line exactly equal to the canonical entry is not always there after a run that
  returns. After \<open># Posts\<close> without a final line terminator the entry is written onto the
  same line; an existing line that is the entry followed by a space counts as the entry,
  so nothing is written; and the entry of a name with a line feed in it is spread over
  several lines.
\<close>

theorem completeness_counterexample:
  "py ''a.md'' \<in> set (md_files [py ''a.md'']) \<and>
   \<not> isl (update_index [py ''a.md''] (Some (py ''# Posts''))) \<and>
   entry_line (py ''a.md'') \<notin>
     set (index_lines (index_after (update_index [py ''a.md''] (Some (py ''# Posts''))))) \<and>
   \<not> isl (update_index [py ''a.md''] (Some (entry_line (py ''a.md'') @ py '' '' @ [LF]))) \<and>
   entry_line (py ''a.md'') \<notin>
     set (index_lines (index_after (update_index [py ''a.md'']
       (Some (entry_line (py ''a.md'') @ py '' '' @ [LF]))))) \<and>
   py ''a'' @ [LF] @ py ''b.md'' \<in> set (md_files [py ''a'' @ [LF] @ py ''b.md'']) \<and>
   \<not> isl (update_index [py ''a'' @ [LF] @ py ''b.md''] None) \<and>
   entry_line (py ''a'' @ [LF] @ py ''b.md'') \<notin>
     set (index_lines (index_after (update_index [py ''a'' @ [LF] @ py ''b.md''] None)))"
proof -
  let ?e = "entry_line (py ''a.md'')"
  let ?n = "py ''a'' @ [LF] @ py ''b.md''"
  have "py ''# Posts'' \<noteq> []"
    by (simp add: py_def)
  then have 1: "?e \<notin> set (index_lines (Some (py ''# Posts'' @ ?e @ [LF])))"
    by (simp add: index_lines_def contents_simps lines_after_posts chomp_def butlast_append)
  have "py '' '' \<noteq> []"
    by (simp add: py_def)
  then have 2: "?e \<notin> set (index_lines (Some (?e @ py '' '' @ [LF])))"
    by (simp add: index_lines_def contents_simps spaced_entry(1) chomp_def butlast_append)
  have "LF \<in> set (entry_line ?n)"
    by (simp add: entry_line_eq)
  then have 3: "entry_line ?n \<notin> set (index_lines fs)" for fs
    using LF_notin_index_lines by blast
  have 4: "?n \<in> set (md_files [?n])"
    by (simp only: md_files_broken) simp
  show ?thesis
    unfolding run_after_posts spaced_entry(3) run_broken
    using 1 2 3 4 by (simp add: md_files_a)
qed

text \<open>
  Claim C2, as the code has it. When the index file is missing, empty or ends with a line
  terminator before the first run, no candidate name has a line break and the first run
  returns, a second run on the same candidates (in any order, with or without the index
  file in the listing) returns and leaves the index file exactly as the first run left it.
\<close>

theorem idempotent_on_terminated_index:
  assumes "update_index listing fs = Inr s'"
    and "terminated (contents fs)"
    and "\<forall>f \<in> set (md_files listing). \<not> has_line_break f"
    and "set (md_files listing') = set (md_files listing)"
  shows "update_index listing' (index_md s') =
           Inr \<lparr>existing_entries = read_existing_entries (index_md s'), index_md = index_md s'\<rparr>"
proof (rule update_index_none, rule ballI)
  fix f
  assume "f \<in> set (md_files listing')"
  with assms(4) have c: "f \<in> set (md_files listing)" by simp
  with assms(3) have "\<not> has_line_break f" by simp
  with assms(1) c show "entry_line f \<in> read_existing_entries (index_md s')"
    using assms(2) by (rule entry_recognised_after_run)
qed

theorem idempotent_on_terminated_index_witness:
  "update_index [py ''a.md''] None =
     Inr \<lparr>existing_entries = {}, index_md = Some (entry_line (py ''a.md'') @ [LF])\<rparr> \<and>
   terminated (contents None) \<and>
   md_files [py ''a.md''] = [py ''a.md''] \<and> \<not> has_line_break (py ''a.md'') \<and>
   set (md_files [py ''a.md'', index_file]) = set (md_files [py ''a.md'']) \<and>
   update_index [py ''a.md'', index_file] (Some (entry_line (py ''a.md'') @ [LF])) =
     Inr \<lparr>existing_entries = read_existing_entries (Some (entry_line (py ''a.md'') @ [LF])),
          index_md = Some (entry_line (py ''a.md'') @ [LF])\<rparr>"
proof -
  have r: "update_index [py ''a.md''] None =
      Inr \<lparr>existing_entries = {}, index_md = Some (entry_line (py ''a.md'') @ [LF])\<rparr>"
    by (simp add: update_index_single [OF md_files_a] encodable_a contents_simps)
  have b: "\<forall>f \<in> set (md_files [py ''a.md'']). \<not> has_line_break f"
    by (simp add: md_files_a no_line_break_a)
  have s: "set (md_files [py ''a.md'', index_file]) = set (md_files [py ''a.md''])"
    by (simp add: md_files_a md_files_a_index)
  show ?thesis
    using r terminated_None s idempotent_on_terminated_index [OF r terminated_None b s]
    by (simp add: md_files_a no_line_break_a)
qed

text \<open>
  Without these conditions a second run changes the file again: after \<open># Posts\<close> without
  a final line terminator; for a name with a line feed in it; and after a first run that
  raised at a name that cannot be encoded, when the second run meets \<open>b.md\<close> before that
  name.
\<close>

theorem idempotence_counterexample:
  "\<not> isl (update_index [py ''a.md''] (Some (py ''# Posts''))) \<and>
   contents (index_after (update_index [py ''a.md'']
       (index_after (update_index [py ''a.md''] (Some (py ''# Posts'')))))) \<noteq>
     contents (index_after (update_index [py ''a.md''] (Some (py ''# Posts'')))) \<and>
   \<not> isl (update_index [py ''a'' @ [LF] @ py ''b.md''] None) \<and>
   contents (index_after (update_index [py ''a'' @ [LF] @ py ''b.md'']
       (index_after (update_index [py ''a'' @ [LF] @ py ''b.md''] None)))) \<noteq>
     contents (index_after (update_index [py ''a'' @ [LF] @ py ''b.md''] None)) \<and>
   contents (index_after (update_index [py ''b.md'', 56575 # py ''.md'']
       (index_after (update_index [56575 # py ''.md'', py ''b.md''] None)))) \<noteq>
     contents (index_after (update_index [56575 # py ''.md'', py ''b.md''] None))"
proof -
  let ?e = "entry_line (py ''a.md'')"
  let ?n = "py ''a'' @ [LF] @ py ''b.md''"
  have a: "\<not> isl (update_index [py ''a.md''] (Some (py ''# Posts'')))"
    by (simp add: run_after_posts)
  have "contents (index_after (update_index [py ''a.md'']
      (Some (py ''# Posts'' @ ?e @ [LF])))) \<noteq> py ''# Posts'' @ ?e @ [LF]"
    by (simp add: update_index_single [OF md_files_a] scan_after_posts encodable_a
        contents_simps)
  then have c: "contents (index_after (update_index [py ''a.md'']
       (index_after (update_index [py ''a.md''] (Some (py ''# Posts'')))))) \<noteq>
     contents (index_after (update_index [py ''a.md''] (Some (py ''# Posts''))))"
    unfolding run_after_posts by (simp add: contents_simps)
  have b: "\<not> isl (update_index [?n] None)"
    unfolding run_broken by simp
  have 2: "contents (index_after (update_index [?n] (index_after (update_index [?n] None)))) \<noteq>
      contents (index_after (update_index [?n] None))"
    unfolding run_broken by (simp add: contents_simps)
  have r3: "update_index [56575 # py ''.md'', py ''b.md''] None =
      Inl (UnicodeEncodeError, \<lparr>existing_entries = {}, index_md = Some []\<rparr>)"
    unfolding update_index_eq md_files_bad_b
    using not_encodable_surrogate by (simp add: contents_simps)
  have "contents (index_after (update_index [py ''b.md'', 56575 # py ''.md''] (Some []))) =
      entry_line (py ''b.md'') @ [LF]"
    unfolding contents_update_index md_files_b_bad
    using not_encodable_surrogate by (simp add: encodable_b contents_simps)
  then have 3: "contents (index_after (update_index [py ''b.md'', 56575 # py ''.md'']
      (index_after (update_index [56575 # py ''.md'', py ''b.md''] None)))) \<noteq>
     contents (index_after (update_index [56575 # py ''.md'', py ''b.md''] None))"
    unfolding r3 index_after_simps by (simp add: contents_simps)
  show ?thesis
    using a b c 2 3 by blast
qed

section \<open>What the scan recognises\<close>




text \<open>
  Claim C5, as the code has it. When no line of the index file that begins with \<open>- [\<close>
  is, stripped of the white space around it, the canonical entry of a candidate (in
  particular when the file name occurs only in entry lines with another URL), a run that
  returns has appended the canonical entry line for it after the existing text, which
  stays as it is. When moreover the index file ended with a line terminator and the name
  has no line break, the lines of the file after the run are the lines before the run
  followed by new lines, one of which is the canonical entry line: the old entry line and
  the new one are both there.
\<close>

theorem differing_line_does_not_suppress:
  assumes "update_index listing fs = Inr s'"
    and "f \<in> set (md_files listing)"
    and "\<forall>l \<in> set (file_lines (contents fs)). startswith l (py ''- ['') \<longrightarrow> strip l \<noteq> entry_line f"
  shows "(\<exists>pre post. contents (index_md s') = contents fs @ pre @ entry_line f @ [LF] @ post) \<and>
         (terminated (contents fs) \<and> \<not> has_line_break f \<longrightarrow>
            (\<exists>before after. file_lines (contents (index_md s')) =
               file_lines (contents fs) @ before @ [entry_line f @ [LF]] @ after))"
proof -
  let ?w = "\<lambda>ns. concat (map (\<lambda>f. entry_line f @ [LF]) ns)"
  from assms(3) have "entry_line f \<notin> read_existing_entries fs"
    by (auto simp: mem_read_existing_entries)
  with assms(2) obtain xs ys where
    split: "filter (\<lambda>f. entry_line f \<notin> read_existing_entries fs) (md_files listing) = xs @ f # ys"
    by (rule missing_entry_appended)
  have whole: "contents (index_md s') = contents fs @ ?w xs @ entry_line f @ [LF] @ ?w ys"
    by (simp add: update_index_returns(2) [OF assms(1)] split)
  have "file_lines (contents (index_md s')) =
      file_lines (contents fs) @ file_lines (?w xs) @ [entry_line f @ [LF]] @ file_lines (?w ys)"
    if t: "terminated (contents fs)" and b: "\<not> has_line_break f"
  proof -
    have "file_lines (contents fs @ ?w xs) = file_lines (contents fs) @ file_lines (?w xs)"
      by (rule file_lines_append [OF t entries_start])
    then show ?thesis
      unfolding update_index_returns(2) [OF assms(1)] split file_lines_entry_between [OF t b]
      by simp
  qed
  with whole show ?thesis by blast
qed

theorem differing_line_does_not_suppress_witness:
  "update_index [py ''post1.md''] (Some (py ''- [post1.md](old-wrong-url)'' @ [LF])) =
     Inr \<lparr>existing_entries = {strip (py ''- [post1.md](old-wrong-url)'' @ [LF])},
          index_md = Some (py ''- [post1.md](old-wrong-url)'' @ [LF] @
            entry_line (py ''post1.md'') @ [LF])\<rparr> \<and>
   py ''post1.md'' \<in> set (md_files [py ''post1.md'']) \<and>
   file_lines (contents (Some (py ''- [post1.md](old-wrong-url)'' @ [LF]))) =
     [py ''- [post1.md](old-wrong-url)'' @ [LF]] \<and>
   strip (py ''- [post1.md](old-wrong-url)'' @ [LF]) \<noteq> entry_line (py ''post1.md'') \<and>
   terminated (contents (Some (py ''- [post1.md](old-wrong-url)'' @ [LF]))) \<and>
   \<not> has_line_break (py ''post1.md'') \<and>
   (\<exists>pre post. py ''- [post1.md](old-wrong-url)'' @ [LF] @ entry_line (py ''post1.md'') @ [LF] =
      py ''- [post1.md](old-wrong-url)'' @ [LF] @ pre @ entry_line (py ''post1.md'') @ [LF] @ post) \<and>
   (\<exists>before after. file_lines (py ''- [post1.md](old-wrong-url)'' @ [LF] @
        entry_line (py ''post1.md'') @ [LF]) =
      [py ''- [post1.md](old-wrong-url)'' @ [LF]] @ before @
      [entry_line (py ''post1.md'') @ [LF]] @ after)"
proof -
  let ?old = "py ''- [post1.md](old-wrong-url)''"
  let ?fs = "Some (?old @ [LF])"
  have c: "py ''post1.md'' \<in> set (md_files [py ''post1.md''])"
    by (simp add: md_files_post1)
  have nb: "\<not> has_line_break ?old"
    by (simp add: has_line_break_def py_def LF_def CR_def)
  then have lines: "file_lines (contents ?fs) = [?old @ [LF]]"
    by (simp add: contents_simps file_lines_single)
  have ne: "strip (?old @ [LF]) \<noteq> entry_line (py ''post1.md'')"
    using old_entry_differs [of "[LF]"] by simp
  with lines have d: "\<forall>l \<in> set (file_lines (contents ?fs)).
      startswith l (py ''- ['') \<longrightarrow> strip l \<noteq> entry_line (py ''post1.md'')"
    by simp
  have "startswith (?old @ [LF]) (py ''- ['')"
    by (simp add: startswith_def py_def)
  with lines have scan: "read_existing_entries ?fs = {strip (?old @ [LF])}"
    by (simp add: read_existing_entries_def contents_simps)
  with ne have r: "update_index [py ''post1.md''] ?fs =
      Inr \<lparr>existing_entries = {strip (?old @ [LF])},
           index_md = Some (?old @ [LF] @ entry_line (py ''post1.md'') @ [LF])\<rparr>"
    by (simp add: update_index_single [OF md_files_post1] encodable_post1 contents_simps)
  have t: "terminated (contents ?fs)"
    by (simp add: terminated_def contents_simps)
  show ?thesis
    using r c ne t no_line_break_post1 differing_line_does_not_suppress [OF r c d] lines
    by (simp add: contents_simps)
qed

text \<open>
  The claim without these conditions fails. When the index file is the old entry line
  without a final line terminator, the run writes the canonical entry onto that line, and
  the file has one line, not two entry lines. And a line that is the canonical entry
  followed by a space is not the canonical entry character for character, yet the run
  appends nothing.
\<close>

theorem scenario_d_counterexample:
  "\<not> isl (update_index [py ''post1.md''] (Some (py ''- [post1.md](old-wrong-url)''))) \<and>
   file_lines (contents (index_after (update_index [py ''post1.md'']
       (Some (py ''- [post1.md](old-wrong-url)''))))) =
     [py ''- [post1.md](old-wrong-url)'' @ entry_line (py ''post1.md'') @ [LF]] \<and>
   index_lines (Some (entry_line (py ''a.md'') @ py '' '' @ [LF])) =
     [entry_line (py ''a.md'') @ py '' ''] \<and>
   entry_line (py ''a.md'') @ py '' '' \<noteq> entry_line (py ''a.md'') \<and>
   \<not> isl (update_index [py ''a.md''] (Some (entry_line (py ''a.md'') @ py '' '' @ [LF]))) \<and>
   index_after (update_index [py ''a.md''] (Some (entry_line (py ''a.md'') @ py '' '' @ [LF]))) =
     Some (entry_line (py ''a.md'') @ py '' '' @ [LF])"
proof -
  let ?old = "py ''- [post1.md](old-wrong-url)''"
  let ?p = "entry_line (py ''post1.md'')"
  let ?e = "entry_line (py ''a.md'')"
  have nb: "\<not> has_line_break ?old" and ne: "?old \<noteq> []"
    by (simp_all add: has_line_break_def py_def LF_def CR_def)
  have "strip ?old \<noteq> ?p"
    using old_entry_differs [of "[]"] by simp
  then have "?p \<notin> read_existing_entries (Some ?old)"
    using nb ne by (simp add: read_existing_entries_def file_lines_unterminated)
  then have r: "update_index [py ''post1.md''] (Some ?old) =
      Inr \<lparr>existing_entries = read_existing_entries (Some ?old),
           index_md = Some (?old @ ?p @ [LF])\<rparr>"
    by (simp add: update_index_single [OF md_files_post1] encodable_post1 contents_simps)
  have "file_lines ((?old @ ?p) @ [LF]) = [(?old @ ?p) @ [LF]]"
    by (rule file_lines_single) (simp add: nb no_line_break_post1)
  then have 2: "file_lines (?old @ ?p @ [LF]) = [?old @ ?p @ [LF]]"
    by simp
  have 1: "\<not> isl (update_index [py ''post1.md''] (Some ?old))"
    "file_lines (contents (index_after (update_index [py ''post1.md''] (Some ?old)))) =
      [?old @ ?p @ [LF]]"
    unfolding r using 2 by (simp_all add: contents_simps)
  have "py '' '' \<noteq> []"
    by (simp add: py_def)
  then have 3: "index_lines (Some (?e @ py '' '' @ [LF])) = [?e @ py '' '']"
    "?e @ py '' '' \<noteq> ?e"
    by (simp_all add: index_lines_def contents_simps spaced_entry(1) chomp_def butlast_append)
  have 5: "\<not> isl (update_index [py ''a.md''] (Some (?e @ py '' '' @ [LF])))"
    "index_after (update_index [py ''a.md''] (Some (?e @ py '' '' @ [LF]))) =
      Some (?e @ py '' '' @ [LF])"
    unfolding spaced_entry(3) by simp_all
  show ?thesis
    using 1 3 5 by blast
qed

end
